theory Spec2Isabelle
  imports Main "HOL-Library.Word"
begin

section \<open>Exceptions\<close>

text \<open>
  The exception classes that the sources throw or catch. The first four are declared in
  \<^verbatim>\<open>error.hpp\<close>, \<open>QueueClosed\<close> in \<^verbatim>\<open>time_machine.hpp\<close>. \<open>zk_error\<close>, \<open>BadStatus\<close> and
  \<open>UpdateError\<close> are the backend classes \<^verbatim>\<open>zk::error\<close>, \<^verbatim>\<open>ppconsul::BadStatus\<close> and
  \<^verbatim>\<open>ppconsul::kv::UpdateError\<close> named in the handlers of \<^verbatim>\<open>liboffkv_try\<close>; their headers
  are not part of the sources, so \<open>zk_error_code\<close> lists the three codes the handler
  names and keeps every other code as \<open>other_code\<close>. \<open>future_error\<close> is what
  \<^verbatim>\<open>std::promise\<close> throws, \<open>other_exception\<close> any exception of another class.
\<close>

datatype zk_error_code = no_entry | entry_exists | version_mismatch | other_code int

datatype future_errc = promise_already_satisfied | no_state

datatype exn =
    InvalidAddress
  | InvalidKey
  | NoEntry
  | EntryExists
  | QueueClosed
  | zk_error zk_error_code
  | BadStatus nat string
  | UpdateError string
  | future_error future_errc
  | other_exception string

section \<open>BlockingQueue\<close>

text \<open>
  \<^verbatim>\<open>BlockingQueue<T>\<close>: \<open>items\<close> is the deque (its front is the head of the list),
  \<open>closed\<close> the flag. Every method body runs under \<^verbatim>\<open>lock_\<close> from its first statement to
  its return (but for the wait on the condition variable), so a method is one transition
  of the queue. The condition variable is kept as the sequence of notifications sent to
  it.
\<close>

datatype notification = notify_one | notify_all

record 'a BlockingQueue =
  items :: "'a list"
  closed :: bool
  consumer_cv :: "notification list"

definition new_queue :: "'a BlockingQueue" where
  "new_queue = \<lparr>items = [], closed = False, consumer_cv = []\<rparr>"

definition isEmpty :: "'a BlockingQueue \<Rightarrow> bool" where
  "isEmpty q = (items q = [])"

text \<open>
  \<^verbatim>\<open>put\<close> returns what the call does (\<open>Inl\<close> the exception thrown) together with the
  queue after the call.
\<close>

definition put :: "'a \<Rightarrow> 'a BlockingQueue \<Rightarrow> (exn + unit) \<times> 'a BlockingQueue" where
  "put item q =
     (if closed q then (Inl QueueClosed, q)
      else (Inr (), q\<lparr>items := items q @ [item],
                       consumer_cv := consumer_cv q @ [notify_one]\<rparr>))"

definition close :: "'a BlockingQueue \<Rightarrow> 'a BlockingQueue" where
  "close q = q\<lparr>closed := True, consumer_cv := consumer_cv q @ [notify_all]\<rparr>"

text \<open>
  While a consumer waits on the condition variable the lock is free and the other threads
  change the queue through its methods: a producer's \<^verbatim>\<open>put\<close>, a \<^verbatim>\<open>close\<close>, another
  consumer taking items from the front. A schedule gives, for each time the waiting
  thread wakes up (notified or spuriously), what the others did since it fell asleep.
\<close>

datatype 'a other = OtherPut 'a | OtherClose | OtherTake nat

fun other_step :: "'a BlockingQueue \<Rightarrow> 'a other \<Rightarrow> 'a BlockingQueue" where
  "other_step q (OtherPut x) = snd (put x q)"
| "other_step q OtherClose = close q"
| "other_step q (OtherTake n) = q\<lparr>items := drop n (items q)\<rparr>"

type_synonym 'a schedule = "'a other list list"

text \<open>
  \<^verbatim>\<open>while (!closed_ && isEmpty()) consumer_cv_.wait(lock);\<close>
  \<open>None\<close>: the thread is never woken in a state that leaves the loop.
\<close>

fun wait_while_empty ::
  "'a schedule \<Rightarrow> 'a BlockingQueue \<Rightarrow> ('a schedule \<times> 'a BlockingQueue) option" where
  "wait_while_empty sched q =
     (if \<not> closed q \<and> isEmpty q then
        (case sched of
           [] \<Rightarrow> None
         | w # sched' \<Rightarrow> wait_while_empty sched' (foldl other_step q w))
      else Some (sched, q))"

text \<open>
  What a call of one of the two \<^verbatim>\<open>get\<close> overloads does: it returns a flag, with the
  output argument and the queue as the call leaves them and the rest of the schedule; or
  it waits for ever; or it reads the front of an empty deque.
\<close>

datatype ('r, 'a) returned =
    Returned bool 'r "'a BlockingQueue" "'a schedule"
  | Blocked_forever
  | Undefined_behaviour

text \<open>\<^verbatim>\<open>bool get(T& item)\<close>\<close>

definition get :: "'a schedule \<Rightarrow> 'a \<Rightarrow> 'a BlockingQueue \<Rightarrow> ('a, 'a) returned" where
  "get sched item q =
     (case wait_while_empty sched q of
        None \<Rightarrow> Blocked_forever
      | Some (sched', q') \<Rightarrow>
          if isEmpty q' then Returned False item q' sched'
          else (case items q' of
                  [] \<Rightarrow> Undefined_behaviour
                | x # xs \<Rightarrow> Returned True x (q'\<lparr>items := xs\<rparr>) sched'))"

text \<open>
  The loop \<^verbatim>\<open>for (i = 0; i < count; ++i) { out_items.push_back(items_.front());
  items_.pop_front(); }\<close>. \<^verbatim>\<open>front()\<close> of an empty deque is undefined: \<open>None\<close>.
\<close>

fun move_front :: "nat \<Rightarrow> 'a list \<Rightarrow> 'a list \<Rightarrow> ('a list \<times> 'a list) option" where
  "move_front 0 out its = Some (out, its)"
| "move_front (Suc n) out [] = None"
| "move_front (Suc n) out (x # xs) = move_front n (out @ [x]) xs"

definition drain ::
  "'a schedule \<Rightarrow> 'a list \<Rightarrow> nat \<Rightarrow> 'a BlockingQueue \<Rightarrow> ('a list, 'a) returned" where
  "drain sched out_items max_count q =
     (let count = min max_count (length (items q)) in
      case move_front count out_items (items q) of
        None \<Rightarrow> Undefined_behaviour
      | Some (out', its') \<Rightarrow> Returned True out' (q\<lparr>items := its'\<rparr>) sched)"

text \<open>
  \<^verbatim>\<open>bool get(std::vector<T>& out_items, size_t max_count, bool require_at_least_one)\<close>
\<close>

definition get_batch ::
  "'a schedule \<Rightarrow> 'a list \<Rightarrow> nat \<Rightarrow> bool \<Rightarrow> 'a BlockingQueue \<Rightarrow> ('a list, 'a) returned" where
  "get_batch sched out_items max_count require_at_least_one q =
     (if max_count = 0 then Returned True out_items q sched
      else if require_at_least_one then
        (case wait_while_empty sched q of
           None \<Rightarrow> Blocked_forever
         | Some (sched', q') \<Rightarrow>
             if isEmpty q' then Returned False out_items q' sched'
             else drain sched' out_items max_count q')
      else drain sched out_items max_count q)"

subsection \<open>Sequences of calls\<close>

text \<open>
  A sequence of calls on one queue, each by some thread and each run to its end before
  the next starts. A \<^verbatim>\<open>get\<close> carries the caller's output variable. A \<^verbatim>\<open>get\<close> that has to
  wait answers \<open>Waits\<close> and leaves the queue as it is.
\<close>

datatype 'a call = CallPut 'a | CallGet 'a | CallGetBatch "'a list" nat bool | CallClose

datatype 'a response =
    PutReturned
  | PutThrew exn
  | GetReturned bool 'a
  | BatchReturned bool "'a list"
  | CloseReturned
  | Waits
  | Undefined

fun exec :: "'a call \<Rightarrow> 'a BlockingQueue \<Rightarrow> 'a response \<times> 'a BlockingQueue" where
  "exec (CallPut x) q =
     (case put x q of (Inl e, q') \<Rightarrow> (PutThrew e, q') | (Inr u, q') \<Rightarrow> (PutReturned, q'))"
| "exec (CallGet item) q =
     (case get [] item q of
        Returned b item' q' s \<Rightarrow> (GetReturned b item', q')
      | Blocked_forever \<Rightarrow> (Waits, q)
      | Undefined_behaviour \<Rightarrow> (Undefined, q))"
| "exec (CallGetBatch out_items max_count require) q =
     (case get_batch [] out_items max_count require q of
        Returned b out' q' s \<Rightarrow> (BatchReturned b out', q')
      | Blocked_forever \<Rightarrow> (Waits, q)
      | Undefined_behaviour \<Rightarrow> (Undefined, q))"
| "exec CallClose q = (CloseReturned, close q)"

fun run :: "'a call list \<Rightarrow> 'a BlockingQueue \<Rightarrow> 'a response list \<times> 'a BlockingQueue" where
  "run [] q = ([], q)"
| "run (c # cs) q =
     (case exec c q of (r, q') \<Rightarrow> (case run cs q' of (rs, q'') \<Rightarrow> (r # rs, q'')))"

text \<open>
  What the calls answer when the queue is closed and holds \<open>xs\<close>, told on the list of
  items alone, as the amended claim on closure has it: a \<^verbatim>\<open>put\<close> throws, a \<^verbatim>\<open>get\<close> hands
  out the head of what is left or, when nothing is left, returns false with the caller's
  variable untouched; a batch \<^verbatim>\<open>get\<close> hands out the next \<open>max_count\<close> items and returns
  false only when it was asked for at least one of a positive number of items and
  nothing is left, true in every other case.
\<close>

fun after_close :: "'a call list \<Rightarrow> 'a list \<Rightarrow> 'a response list" where
  "after_close [] xs = []"
| "after_close (CallPut x # cs) xs = PutThrew QueueClosed # after_close cs xs"
| "after_close (CallGet item # cs) [] = GetReturned False item # after_close cs []"
| "after_close (CallGet item # cs) (x # xs) = GetReturned True x # after_close cs xs"
| "after_close (CallGetBatch out_items max_count require # cs) xs =
     BatchReturned (\<not> (0 < max_count \<and> require \<and> xs = [])) (out_items @ take max_count xs)
       # after_close cs (drop max_count xs)"
| "after_close (CallClose # cs) xs = CloseReturned # after_close cs xs"

section \<open>Translation of backend failures\<close>

text \<open>
  \<^verbatim>\<open>liboffkv_try(f)\<close> calls \<open>f\<close>; \<open>f ()\<close> is \<open>Inr\<close> the value returned or \<open>Inl\<close> the
  exception thrown. The call returns, throws, or reaches \<^verbatim>\<open>__builtin_unreachable()\<close>.
\<close>

datatype 'a outcome = Returns 'a | Throws exn | Unreachable

text \<open>
  The handlers, in the order of the source. An exception of a class without a handler
  leaves the \<^verbatim>\<open>try\<close> block as it is.
\<close>

fun handlers :: "exn \<Rightarrow> 'a outcome" where
  "handlers (zk_error no_entry) = Throws NoEntry"
| "handlers (zk_error entry_exists) = Throws EntryExists"
| "handlers (zk_error version_mismatch) = Throws (zk_error version_mismatch)"
| "handlers (zk_error (other_code c)) = Unreachable"
| "handlers (BadStatus status message) = Throws (BadStatus status message)"
| "handlers (UpdateError message) = Throws (UpdateError message)"
| "handlers e = Throws e"

definition liboffkv_try :: "(unit \<Rightarrow> exn + 'a) \<Rightarrow> 'a outcome" where
  "liboffkv_try f = (case f () of Inr v \<Rightarrow> Returns v | Inl e \<Rightarrow> handlers e)"

text \<open>The exception classes of the backend libraries, and those of \<^verbatim>\<open>error.hpp\<close>.\<close>

fun backend_specific :: "exn \<Rightarrow> bool" where
  "backend_specific (zk_error c) = True"
| "backend_specific (BadStatus status message) = True"
| "backend_specific (UpdateError message) = True"
| "backend_specific e = False"

fun canonical :: "exn \<Rightarrow> bool" where
  "canonical InvalidAddress = True"
| "canonical InvalidKey = True"
| "canonical NoEntry = True"
| "canonical EntryExists = True"
| "canonical e = False"

section \<open>TimeMachine\<close>

subsection \<open>Promises and futures\<close>

text \<open>
  The shared state of a \<^verbatim>\<open>std::promise\<close> and its \<^verbatim>\<open>std::future\<close>: not yet set, holding a
  value, or holding an exception. The states live in a heap, a promise or future is the
  address of its state; an address outside the heap is a promise or future without a
  state. \<^verbatim>\<open>set_value\<close> and \<^verbatim>\<open>set_exception\<close> throw \<^verbatim>\<open>std::future_error\<close> when the state
  is already set.
\<close>

datatype 'v shared_state = Pending | Value 'v | Exception exn | No_state

type_synonym 'v heap = "'v shared_state list"

definition state_at :: "'v heap \<Rightarrow> nat \<Rightarrow> 'v shared_state" where
  "state_at h a = (if a < length h then h ! a else No_state)"

definition set_state :: "nat \<Rightarrow> 'v shared_state \<Rightarrow> 'v heap \<Rightarrow> exn + 'v heap" where
  "set_state p new h =
     (case state_at h p of
        Pending \<Rightarrow> Inr (h[p := new])
      | No_state \<Rightarrow> Inl (future_error no_state)
      | _ \<Rightarrow> Inl (future_error promise_already_satisfied))"

definition set_value :: "nat \<Rightarrow> 'v \<Rightarrow> 'v heap \<Rightarrow> exn + 'v heap" where
  "set_value p v h = set_state p (Value v) h"

definition set_exception :: "nat \<Rightarrow> exn \<Rightarrow> 'v heap \<Rightarrow> exn + 'v heap" where
  "set_exception p e h = set_state p (Exception e) h"

text \<open>
  \<^verbatim>\<open>future_ptr->wait_for(timeout_duration) == std::future_status::ready\<close>, on the heap as
  it is when the wait ends.
\<close>

definition is_ready :: "nat \<Rightarrow> int \<Rightarrow> 'v heap \<Rightarrow> bool \<times> 'v heap" where
  "is_ready future timeout_duration h =
     (case state_at h future of
        Value v \<Rightarrow> (True, h)
      | Exception e \<Rightarrow> (True, h)
      | _ \<Rightarrow> (False, h))"

subsection \<open>The scheduler\<close>

text \<open>
  \<^verbatim>\<open>QueueData\<close> is a pair of \<^verbatim>\<open>std::function\<close>s: the probe takes the timeout in
  milliseconds, the action nothing; both act on the state \<open>'s\<close> of the program around
  them. The members \<^verbatim>\<open>queue_\<close>, \<^verbatim>\<open>state_\<close>, \<^verbatim>\<open>objects_per_thread_\<close> and
  \<^verbatim>\<open>wait_for_object_ms_\<close> are written without the final underscore; \<^verbatim>\<open>size_t\<close> and
  \<^verbatim>\<open>unsigned long long\<close> are 64-bit words.
\<close>

type_synonym 's QueueData = "(int \<Rightarrow> 's \<Rightarrow> bool \<times> 's) \<times> ('s \<Rightarrow> 's)"

record 's TimeMachine =
  queue :: "'s QueueData BlockingQueue"
  state :: int
  objects_per_thread :: "64 word"
  wait_for_object_ms :: "64 word"

text \<open>
  The constructor: an open empty queue, the counter at zero. (The threads it starts are
  in the section on threads.)
\<close>

definition machine :: "64 word \<Rightarrow> 64 word \<Rightarrow> 's TimeMachine" where
  "machine objects wait_ms =
     \<lparr>queue = new_queue, state = 0, objects_per_thread = objects, wait_for_object_ms = wait_ms\<rparr>"

text \<open>\<^verbatim>\<open>picked.erase(it)\<close>\<close>

definition erase :: "nat \<Rightarrow> 'a list \<Rightarrow> 'a list" where
  "erase i xs = take i xs @ drop (Suc i) xs"

text \<open>
  The loop of \<^verbatim>\<open>process_objects_\<close>. The iterator is the index \<open>it\<close> of the element it
  points to: \<^verbatim>\<open>erase\<close> moves the elements behind \<open>it\<close> one place to the front and leaves
  the iterator where it is, then \<^verbatim>\<open>++it\<close> steps over the element that took the place.
  \<^verbatim>\<open>std::chrono::milliseconds\<close> holds a signed 64-bit count.
\<close>

function process_loop ::
  "int \<Rightarrow> nat \<Rightarrow> 's QueueData list \<Rightarrow> 's \<Rightarrow> 's QueueData list \<times> 's" where
  "process_loop timeout it picked s =
     (if it < length picked then
        (case fst (picked ! it) timeout s of
           (ready, s') \<Rightarrow>
             if ready then
               process_loop timeout (Suc it) (erase it picked) (snd (picked ! it) s')
             else process_loop timeout (Suc it) picked s')
      else (picked, s))"
  by pat_completeness auto
termination
  by (relation "measure (\<lambda>(timeout, it, picked, s). length picked - it)")
     (auto simp: erase_def)

definition process_objects ::
  "'s TimeMachine \<Rightarrow> 's QueueData list \<Rightarrow> 's \<Rightarrow> 's QueueData list \<times> 's" where
  "process_objects tm picked s = process_loop (sint (wait_for_object_ms tm)) 0 picked s"

text \<open>
  The action that \<^verbatim>\<open>then\<close> queues. \<open>func\<close> gets the state of the input future and
  returns a value or throws. The inner \<^verbatim>\<open>try\<close> runs \<open>func\<close> and \<^verbatim>\<open>set_value\<close>, its handler
  calls \<^verbatim>\<open>set_exception\<close> with the exception caught; the outer handler drops what the
  inner handler throws.
\<close>

definition action ::
  "nat \<Rightarrow> nat \<Rightarrow> ('v shared_state \<Rightarrow> exn + 'v) \<Rightarrow> 'v heap \<Rightarrow> 'v heap" where
  "action future promise func h =
     (case (case func (state_at h future) of
              Inl e \<Rightarrow> Inl e
            | Inr to \<Rightarrow> set_value promise to h) of
        Inr h' \<Rightarrow> h'
      | Inl e \<Rightarrow>
          (case set_exception promise e h of
             Inr h' \<Rightarrow> h'
           | Inl e' \<Rightarrow> h))"

text \<open>
  \<^verbatim>\<open>then(future, func)\<close>: a new promise at the end of the heap, the pair of probe and
  action put on the queue. The result is the new future (the address of the promise) or
  the exception of \<^verbatim>\<open>put\<close>, with the scheduler and the heap after the call.
\<close>

definition tm_then ::
  "nat \<Rightarrow> ('v shared_state \<Rightarrow> exn + 'v) \<Rightarrow> 'v heap TimeMachine \<Rightarrow> 'v heap \<Rightarrow>
     (exn + nat) \<times> 'v heap TimeMachine \<times> 'v heap" where
  "tm_then future func tm h =
     (let promise = length h;
          h' = h @ [Pending]
      in case put (is_ready future, action future promise func) (queue tm) of
           (Inl e, q') \<Rightarrow> (Inl e, tm\<lparr>queue := q'\<rparr>, h')
         | (Inr u, q') \<Rightarrow> (Inr promise, tm\<lparr>queue := q'\<rparr>, h'))"

section \<open>Threads\<close>

text \<open>
  A scheduler that is constructed, used and destroyed, with its worker threads, as a
  transition system. A worker is at one of the points of the body of \<^verbatim>\<open>run_thread_\<close>:
  started by the constructor but not yet running (\<open>Spawned\<close>), at the call of \<^verbatim>\<open>get\<close>
  (\<open>Polling\<close>, with its \<^verbatim>\<open>picked\<close>), at the call of \<^verbatim>\<open>process_objects_\<close> (\<open>Processing\<close>),
  out of the loop before \<^verbatim>\<open>fetch_sub\<close> (\<open>Leaving\<close>), or finished (\<open>Exited\<close>). The
  destructor is not yet called (\<open>Alive\<close>), in its first loop (\<open>Wait_empty\<close>), in its
  second loop (\<open>Wait_workers\<close>), past the \<^verbatim>\<open>load\<close> that read zero and before its return
  (\<open>Returning\<close>), or has returned (\<open>Destroyed\<close>).

  One transition is one access to the shared members: \<^verbatim>\<open>fetch_add\<close>, \<^verbatim>\<open>fetch_sub\<close> and
  \<^verbatim>\<open>load\<close> are atomic, \<^verbatim>\<open>put\<close>, \<^verbatim>\<open>get\<close> and \<^verbatim>\<open>close\<close> hold the lock, and the
  destructor's read \<^verbatim>\<open>isEmpty()\<close>, which takes no lock, is taken as one read. A worker
  whose \<^verbatim>\<open>get\<close> would wait has no transition until the queue changes. \<open>Produce\<close> is a
  \<^verbatim>\<open>put\<close> by any thread (a call of \<^verbatim>\<open>then\<close>), \<open>Outside\<close> a change of the state around
  the scheduler by another thread (a backend that fulfils a promise).

  The workers are detached: they go on at every point of the destructor and after its
  return. A step that reads or writes a member after the return works on a destroyed
  object; the members are kept as they were and \<open>use_after_destruction\<close> is set.

  \<open>enqueued\<close> and \<open>fetched\<close> are not in the code: they record the items that \<^verbatim>\<open>put\<close>
  accepted and the items that the workers' \<^verbatim>\<open>get\<close> took out, in order.
\<close>

datatype 's worker =
    Spawned
  | Polling "'s QueueData list"
  | Processing "'s QueueData list"
  | Leaving
  | Exited

datatype destructor = Alive | Wait_empty | Wait_workers | Returning | Destroyed

record 's system =
  time_machine :: "'s TimeMachine"
  world :: 's
  workers :: "'s worker list"
  dtor :: destructor
  use_after_destruction :: bool
  enqueued :: "'s QueueData list"
  fetched :: "'s QueueData list"

text \<open>
  The state that the constructor \<^verbatim>\<open>TimeMachine(number_of_threads, objects_per_thread,
  wait_for_object_ms)\<close> leaves: \<^verbatim>\<open>run_thread_\<close> was called \<open>number_of_threads\<close> times, no
  thread has run yet.
\<close>

definition constructed :: "64 word \<Rightarrow> 64 word \<Rightarrow> 64 word \<Rightarrow> 's \<Rightarrow> 's system" where
  "constructed number_of_threads objects wait_ms w =
     \<lparr>time_machine = machine objects wait_ms, world = w,
      workers = replicate (unat number_of_threads) Spawned,
      dtor = Alive, use_after_destruction = False, enqueued = [], fetched = []\<rparr>"

datatype 's thread_step =
    Worker nat
  | Produce "'s QueueData"
  | Outside 's
  | Close
  | Test_empty
  | Load_state
  | Return

definition set_worker :: "nat \<Rightarrow> 's worker \<Rightarrow> 's system \<Rightarrow> 's system" where
  "set_worker i w s = s\<lparr>workers := (workers s)[i := w]\<rparr>"

definition set_queue :: "'s QueueData BlockingQueue \<Rightarrow> 's system \<Rightarrow> 's system" where
  "set_queue q s = s\<lparr>time_machine := (time_machine s)\<lparr>queue := q\<rparr>\<rparr>"

definition add_state :: "int \<Rightarrow> 's system \<Rightarrow> 's system" where
  "add_state d s =
     s\<lparr>time_machine := (time_machine s)\<lparr>state := state (time_machine s) + d\<rparr>\<rparr>"

text \<open>
  The next step of worker \<open>i\<close>, the body of the thread that \<^verbatim>\<open>run_thread_\<close> starts.
  \<^verbatim>\<open>objects_per_thread_ - picked.size()\<close> is a subtraction of \<^verbatim>\<open>size_t\<close>.
\<close>

fun run_thread :: "nat \<Rightarrow> 's worker \<Rightarrow> 's system \<Rightarrow> 's system option" where
  "run_thread i Spawned s = Some (set_worker i (Polling []) (add_state 1 s))"
| "run_thread i (Polling picked) s =
     (case get_batch [] picked
             (unat (objects_per_thread (time_machine s) - of_nat (length picked))) (picked = [])
             (queue (time_machine s)) of
        Returned b picked' q' sched \<Rightarrow>
          Some (set_worker i (if b then Processing picked' else Leaving)
                 (set_queue q' (s\<lparr>fetched := fetched s @ drop (length picked) picked'\<rparr>)))
      | _ \<Rightarrow> None)"
| "run_thread i (Processing picked) s =
     (case process_objects (time_machine s) picked (world s) of
        (picked', w') \<Rightarrow> Some (set_worker i (Polling picked') (s\<lparr>world := w'\<rparr>)))"
| "run_thread i Leaving s = Some (set_worker i Exited (add_state (- 1) s))"
| "run_thread i Exited s = None"

text \<open>
  The steps of the threads. \<open>Close\<close>, \<open>Test_empty\<close>, \<open>Load_state\<close> and \<open>Return\<close> are
  \<^verbatim>\<open>~TimeMachine\<close>: \<^verbatim>\<open>queue_->close()\<close>, one test of the first loop, one \<^verbatim>\<open>load\<close> of the
  second loop (the loops go round while their test fails), and the end of the body.
\<close>

fun move :: "'s thread_step \<Rightarrow> 's system \<Rightarrow> 's system option" where
  "move (Worker i) s =
     (if i < length (workers s) then run_thread i (workers s ! i) s else None)"
| "move (Produce x) s =
     (case put x (queue (time_machine s)) of
        (Inl e, q') \<Rightarrow> Some (set_queue q' s)
      | (Inr u, q') \<Rightarrow> Some (set_queue q' (s\<lparr>enqueued := enqueued s @ [x]\<rparr>)))"
| "move (Outside w) s = Some (s\<lparr>world := w\<rparr>)"
| "move Close s =
     (if dtor s = Alive
      then Some (set_queue (close (queue (time_machine s))) (s\<lparr>dtor := Wait_empty\<rparr>))
      else None)"
| "move Test_empty s =
     (if dtor s = Wait_empty
      then Some (if isEmpty (queue (time_machine s)) then s\<lparr>dtor := Wait_workers\<rparr> else s)
      else None)"
| "move Load_state s =
     (if dtor s = Wait_workers
      then Some (if state (time_machine s) = 0 then s\<lparr>dtor := Returning\<rparr> else s)
      else None)"
| "move Return s = (if dtor s = Returning then Some (s\<lparr>dtor := Destroyed\<rparr>) else None)"

text \<open>The steps that read or write a member of the scheduler.\<close>

fun touches :: "'s thread_step \<Rightarrow> bool" where
  "touches (Outside w) = False"
| "touches m = True"

definition step :: "'s thread_step \<Rightarrow> 's system \<Rightarrow> 's system option" where
  "step m s =
     (case move m s of
        None \<Rightarrow> None
      | Some s' \<Rightarrow>
          Some (if dtor s = Destroyed \<and> touches m then s'\<lparr>use_after_destruction := True\<rparr>
                else s'))"

fun steps :: "'s thread_step list \<Rightarrow> 's system \<Rightarrow> 's system option" where
  "steps [] s = Some s"
| "steps (m # ms) s = (case step m s of None \<Rightarrow> None | Some s' \<Rightarrow> steps ms s')"

text \<open>
  The workers between \<^verbatim>\<open>fetch_add\<close> and \<^verbatim>\<open>fetch_sub\<close>, those that have left the loop,
  and the points of the destructor behind its first loop.
\<close>

fun active :: "'s worker \<Rightarrow> bool" where
  "active (Polling picked) = True"
| "active (Processing picked) = True"
| "active Leaving = True"
| "active w = False"

fun left :: "'s worker \<Rightarrow> bool" where
  "left Leaving = True"
| "left Exited = True"
| "left w = False"

fun saw_empty :: "destructor \<Rightarrow> bool" where
  "saw_empty Wait_workers = True"
| "saw_empty Returning = True"
| "saw_empty Destroyed = True"
| "saw_empty d = False"

text \<open>What holds in every state that is reached.\<close>

definition invariant :: "'s system \<Rightarrow> bool" where
  "invariant s =
     ((dtor s \<noteq> Alive \<longrightarrow> closed (queue (time_machine s))) \<and>
      (saw_empty (dtor s) \<longrightarrow> isEmpty (queue (time_machine s))) \<and>
      ((\<exists>w \<in> set (workers s). left w) \<longrightarrow>
         closed (queue (time_machine s)) \<and> isEmpty (queue (time_machine s))) \<and>
      enqueued s = fetched s @ items (queue (time_machine s)) \<and>
      state (time_machine s) = int (length (filter active (workers s))))"

section \<open>Inputs\<close>

text \<open>A callable whose backend answers with an HTTP status that is not a success.\<close>

definition consul_call_failing :: "unit \<Rightarrow> exn + nat" where
  "consul_call_failing u = Inl (BadStatus 500 ''Internal Server Error'')"

text \<open>
  Items that write down what is done with them: the probe of item \<open>k\<close> notes the timeout
  it is called with and answers \<open>ready\<close>, the action notes that it ran.
\<close>

datatype event = Probed nat int | Acted nat

definition recording_item :: "bool \<Rightarrow> nat \<Rightarrow> event list QueueData" where
  "recording_item ready k =
     (\<lambda>timeout s. (ready, s @ [Probed k timeout]), \<lambda>s. s @ [Acted k])"

text \<open>A continuation that throws \<open>e\<close> whatever its future holds.\<close>

definition always_throws :: "exn \<Rightarrow> 'v shared_state \<Rightarrow> exn + 'v" where
  "always_throws e st = Inl e"

text \<open>
  The scheduler after \<^verbatim>\<open>then\<close> was called on a new scheduler with the future at address
  0 and a continuation that throws \<open>NoEntry\<close>, in a heap of one cell.
\<close>

definition after_then :: "nat heap TimeMachine" where
  "after_then =
     (machine 10 20)
       \<lparr>queue := \<lparr>items = [(is_ready 0, action 0 1 (always_throws NoEntry))],
                  closed = False, consumer_cv = [notify_one]\<rparr>\<rparr>"

definition closed_empty :: "nat BlockingQueue" where
  "closed_empty = \<lparr>items = [], closed = True, consumer_cv = [notify_all]\<rparr>"

definition open_three :: "nat BlockingQueue" where
  "open_three = \<lparr>items = [5, 6, 7], closed = False, consumer_cv = []\<rparr>"

text \<open>
  One worker starts, an item whose future is ready is put, the worker takes it and runs
  it; the destructor closes the queue, the worker leaves, the destructor returns.
\<close>

definition shutdown_trace :: "event list thread_step list" where
  "shutdown_trace =
     [Worker 0, Produce (recording_item True 1), Worker 0, Worker 0, Close, Worker 0,
      Worker 0, Test_empty, Load_state, Return]"

definition shutdown_state :: "event list system" where
  "shutdown_state =
     \<lparr>time_machine =
        \<lparr>queue = \<lparr>items = [], closed = True, consumer_cv = [notify_one, notify_all]\<rparr>,
         state = 0, objects_per_thread = 10, wait_for_object_ms = 20\<rparr>,
      world = [Probed 1 20, Acted 1], workers = [Exited], dtor = Destroyed,
      use_after_destruction = False,
      enqueued = [recording_item True 1], fetched = [recording_item True 1]\<rparr>"

text \<open>
  A scheduler with one worker is destroyed at once. The destructor closes the queue,
  finds it empty and loads zero from the counter, all before the worker thread has run
  its first statement. In the first trace the worker then runs \<^verbatim>\<open>fetch_add\<close> before the
  destructor returns, in the second after. \<open>worker_running\<close> is the scheduler both end
  with.
\<close>

definition early_return_trace :: "event list thread_step list" where
  "early_return_trace = [Close, Test_empty, Load_state, Worker 0, Return]"

definition late_start_trace :: "event list thread_step list" where
  "late_start_trace = [Close, Test_empty, Load_state, Return, Worker 0]"

definition worker_running :: "event list TimeMachine" where
  "worker_running =
     \<lparr>queue = \<lparr>items = [], closed = True, consumer_cv = [notify_all]\<rparr>,
      state = 1, objects_per_thread = 10, wait_for_object_ms = 20\<rparr>"

section \<open>Properties of the queue\<close>

text \<open>
  C5: \<^verbatim>\<open>put(item)\<close> throws \<open>QueueClosed\<close> when the queue is closed; otherwise it returns
  normally, the item is the new back of the queue, everything before it is as it was,
  and exactly one \<open>notify_one\<close> went to the condition variable.
\<close>

theorem put_contract:
  "(closed q \<longrightarrow> fst (put x q) = Inl QueueClosed) \<and>
   (\<not> closed q \<longrightarrow>
      fst (put x q) = Inr () \<and>
      items (snd (put x q)) = items q @ [x] \<and>
      consumer_cv (snd (put x q)) = consumer_cv q @ [notify_one] \<and>
      \<not> closed (snd (put x q)))"
  by (simp add: put_def)

theorem put_contract_witness:
  "closed \<lparr>items = [1::nat], closed = True, consumer_cv = []\<rparr> \<and>
   fst (put 2 \<lparr>items = [1::nat], closed = True, consumer_cv = []\<rparr>) = Inl QueueClosed \<and>
   \<not> closed \<lparr>items = [1::nat], closed = False, consumer_cv = []\<rparr> \<and>
   items (snd (put 2 \<lparr>items = [1::nat], closed = False, consumer_cv = []\<rparr>)) = [1, 2] \<and>
   consumer_cv (snd (put 2 \<lparr>items = [1::nat], closed = False, consumer_cv = []\<rparr>)) = [notify_one]"
  using put_contract [of "\<lparr>items = [1::nat], closed = True, consumer_cv = []\<rparr>" 2]
    put_contract [of "\<lparr>items = [1::nat], closed = False, consumer_cv = []\<rparr>" 2]
  by simp

text \<open>
  C10: a \<^verbatim>\<open>put\<close> that throws \<open>QueueClosed\<close> leaves the whole queue as it was: the items,
  the flag and the notifications sent to the condition variable.
\<close>

theorem put_closed_unchanged:
  "fst (put x q) = Inl QueueClosed \<Longrightarrow> snd (put x q) = q"
  by (simp add: put_def split: if_splits)

theorem put_closed_unchanged_witness:
  "fst (put 2 \<lparr>items = [1::nat], closed = True, consumer_cv = [notify_all]\<rparr>) = Inl QueueClosed \<and>
   snd (put 2 \<lparr>items = [1::nat], closed = True, consumer_cv = [notify_all]\<rparr>)
     = \<lparr>items = [1::nat], closed = True, consumer_cv = [notify_all]\<rparr>"
proof -
  have h: "fst (put 2 \<lparr>items = [1::nat], closed = True, consumer_cv = [notify_all]\<rparr>)
             = Inl QueueClosed"
    by (simp add: put_def)
  show ?thesis using h put_closed_unchanged [OF h] by simp
qed

text \<open>
  C9: with \<^verbatim>\<open>max_count == 0\<close> the batch \<^verbatim>\<open>get\<close> returns true at once in every state of
  the queue (also empty and open, where it would wait, and empty and closed, where it
  would return false), with \<^verbatim>\<open>out_items\<close> and the queue as they were.
\<close>

theorem get_batch_zero:
  "get_batch sched out_items 0 require_at_least_one q = Returned True out_items q sched"
  by (simp add: get_batch_def)

subsection \<open>Waiting and draining\<close>

lemma move_front_take:
  "n \<le> length xs \<Longrightarrow> move_front n out xs = Some (out @ take n xs, drop n xs)"
  by (induction n out xs rule: move_front.induct) simp_all

lemma drain_take:
  "drain sched out m q =
     Returned True (out @ take m (items q)) (q\<lparr>items := drop m (items q)\<rparr>) sched"
  by (simp add: drain_def move_front_take min_def)

lemma items_same: "items q = xs \<Longrightarrow> q\<lparr>items := xs\<rparr> = q"
  by (cases q) simp

lemma wait_nil: "wait_while_empty [] q = (if \<not> closed q \<and> isEmpty q then None else Some ([], q))"
  by simp

lemma wait_leaves:
  "wait_while_empty sched q = Some (s', q1) \<Longrightarrow> closed q1 \<or> \<not> isEmpty q1"
proof (induction sched arbitrary: q)
  case Nil
  then show ?case by (auto split: if_splits)
next
  case (Cons w sched)
  show ?case
  proof (cases "\<not> closed q \<and> isEmpty q")
    case True
    with Cons.prems have "wait_while_empty sched (foldl other_step q w) = Some (s', q1)"
      by simp
    then show ?thesis by (rule Cons.IH)
  next
    case False
    with Cons.prems show ?thesis by auto
  qed
qed

lemma get_false:
  assumes "get sched item q = Returned False item' q' s'"
  shows "isEmpty q' \<and> closed q' \<and> item' = item"
proof -
  from assms obtain q1 where w: "wait_while_empty sched q = Some (s', q1)"
    and e: "isEmpty q1" "q' = q1" "item' = item"
    by (auto simp: get_def split: option.splits if_splits list.splits
        simp del: wait_while_empty.simps)
  with wait_leaves [OF w] show ?thesis by simp
qed

lemma get_defined: "get sched item q \<noteq> Undefined_behaviour"
  by (auto simp: get_def isEmpty_def split: option.splits list.splits
      simp del: wait_while_empty.simps)

text \<open>
  C6: the single-item \<^verbatim>\<open>get\<close>. On a queue that is empty and closed it returns false and
  leaves \<^verbatim>\<open>item\<close> and the queue alone. On a queue that is not empty it returns true with
  the front item in \<^verbatim>\<open>item\<close> and that item gone from the queue. On a queue that is empty
  and open it waits: with no wake-up it never returns, and after a wake-up it goes on
  from the queue as the others left it. Whenever it returns false the queue is empty and
  closed. It never reads the front of an empty deque.
\<close>

theorem get_contract:
  "(isEmpty q \<and> closed q \<longrightarrow> get sched item q = Returned False item q sched) \<and>
   (\<not> isEmpty q \<longrightarrow>
      get sched item q = Returned True (hd (items q)) (q\<lparr>items := tl (items q)\<rparr>) sched) \<and>
   (isEmpty q \<and> \<not> closed q \<longrightarrow>
      get [] item q = Blocked_forever \<and>
      get (w # sched) item q = get sched item (foldl other_step q w)) \<and>
   (\<forall>item' q' s'. get sched item q = Returned False item' q' s' \<longrightarrow>
      isEmpty q' \<and> closed q' \<and> item' = item) \<and>
   get sched item q \<noteq> Undefined_behaviour"
proof -
  have 1: "isEmpty q \<and> closed q \<longrightarrow> get sched item q = Returned False item q sched"
    by (simp add: get_def)
  have 2: "\<not> isEmpty q \<longrightarrow>
      get sched item q = Returned True (hd (items q)) (q\<lparr>items := tl (items q)\<rparr>) sched"
    by (cases "items q") (simp_all add: get_def isEmpty_def)
  have 3: "isEmpty q \<and> \<not> closed q \<longrightarrow>
      get [] item q = Blocked_forever \<and>
      get (w # sched) item q = get sched item (foldl other_step q w)"
    by (simp add: get_def)
  from 1 2 3 get_false [of sched item q] get_defined [of sched item q]
  show ?thesis by blast
qed

theorem get_contract_witness:
  "isEmpty closed_empty \<and> closed closed_empty \<and>
   get [] 0 closed_empty = Returned False 0 closed_empty [] \<and>
   \<not> isEmpty open_three \<and>
   get [] 0 open_three = Returned True 5 (open_three\<lparr>items := [6, 7]\<rparr>) [] \<and>
   isEmpty (new_queue :: nat BlockingQueue) \<and> \<not> closed (new_queue :: nat BlockingQueue) \<and>
   get [] 0 (new_queue :: nat BlockingQueue) = Blocked_forever \<and>
   get [[OtherPut 7]] 0 (new_queue :: nat BlockingQueue)
     = get [] 0 (foldl other_step new_queue [OtherPut 7]) \<and>
   get [] 0 (foldl other_step (new_queue :: nat BlockingQueue) [OtherPut 7])
     = Returned True 7 \<lparr>items = [], closed = False, consumer_cv = [notify_one]\<rparr> []"
proof -
  let ?q7 = "foldl other_step new_queue [OtherPut 7] :: nat BlockingQueue"
  have q7: "?q7 = \<lparr>items = [7], closed = False, consumer_cv = [notify_one]\<rparr>"
    by (simp add: new_queue_def put_def)
  then have 4: "\<not> isEmpty ?q7" by (simp add: isEmpty_def)
  from get_contract [of ?q7 "[]" 0] 4
  have "get [] 0 ?q7 = Returned True (hd (items ?q7)) (?q7\<lparr>items := tl (items ?q7)\<rparr>) []"
    by blast
  then have r4: "get [] 0 ?q7
      = Returned True 7 \<lparr>items = [], closed = False, consumer_cv = [notify_one]\<rparr> []"
    by (simp add: new_queue_def put_def)
  have 1: "isEmpty closed_empty \<and> closed closed_empty"
    by (simp add: isEmpty_def closed_empty_def)
  have 2: "\<not> isEmpty open_three"
    by (simp add: isEmpty_def open_three_def)
  have 3: "isEmpty (new_queue :: nat BlockingQueue) \<and> \<not> closed (new_queue :: nat BlockingQueue)"
    by (simp add: isEmpty_def new_queue_def)
  from get_contract [of closed_empty "[]" 0] 1
  have r1: "get [] 0 closed_empty = Returned False 0 closed_empty []" by blast
  from get_contract [of open_three "[]" 0] 2
  have "get [] 0 open_three
          = Returned True (hd (items open_three)) (open_three\<lparr>items := tl (items open_three)\<rparr>) []"
    by blast
  then have r2: "get [] 0 open_three = Returned True 5 (open_three\<lparr>items := [6, 7]\<rparr>) []"
    by (simp add: open_three_def)
  from get_contract [of "new_queue :: nat BlockingQueue" "[]" 0 "[OtherPut 7]"] 3
  have r3: "get [] 0 (new_queue :: nat BlockingQueue) = Blocked_forever \<and>
   get [[OtherPut 7]] 0 (new_queue :: nat BlockingQueue)
     = get [] 0 (foldl other_step new_queue [OtherPut 7])"
    by blast
  from 1 2 3 r1 r2 r3 r4 show ?thesis by blast
qed

lemma get_batch_false:
  assumes "0 < max_count"
    and "get_batch sched out_items max_count require q = Returned False out' q' s'"
  shows "require \<and> isEmpty q' \<and> closed q' \<and> out' = out_items"
proof -
  from assms have req: require
    by (cases require) (auto simp: get_batch_def drain_take)
  with assms obtain q1 where w: "wait_while_empty sched q = Some (s', q1)"
    and e: "isEmpty q1" "q' = q1" "out' = out_items"
    by (auto simp: get_batch_def drain_take split: option.splits if_splits
        simp del: wait_while_empty.simps)
  with wait_leaves [OF w] req show ?thesis by simp
qed

lemma get_batch_defined:
  "get_batch sched out_items max_count require q \<noteq> Undefined_behaviour"
  by (auto simp: get_batch_def drain_take split: option.splits
      simp del: wait_while_empty.simps)

text \<open>
  C7: the batch \<^verbatim>\<open>get\<close> with \<open>0 < max_count\<close>. Asked for at least one item, it returns
  false on a queue that is empty and closed, and waits on a queue that is empty and open
  (never returning without a wake-up, going on after one from the queue as the others
  left it). On a queue that is not empty it appends the first \<open>max_count\<close> items, or all
  if there are fewer, to \<^verbatim>\<open>out_items\<close> in the order of the queue, removes them and
  returns true. Not asked for at least one, on an empty queue it returns true at once
  with nothing added. It returns false only when asked for at least one on a queue that
  is empty and closed.
\<close>

theorem get_batch_contract:
  assumes "0 < max_count"
  shows
  "(isEmpty q \<and> closed q \<longrightarrow>
      get_batch sched out_items max_count True q = Returned False out_items q sched) \<and>
   (\<not> isEmpty q \<longrightarrow>
      get_batch sched out_items max_count require q =
        Returned True (out_items @ take max_count (items q))
          (q\<lparr>items := drop max_count (items q)\<rparr>) sched) \<and>
   (isEmpty q \<and> \<not> closed q \<longrightarrow>
      get_batch [] out_items max_count True q = Blocked_forever \<and>
      get_batch (w # sched) out_items max_count True q =
        get_batch sched out_items max_count True (foldl other_step q w)) \<and>
   (isEmpty q \<longrightarrow> get_batch sched out_items max_count False q = Returned True out_items q sched) \<and>
   (\<forall>out' q' s'. get_batch sched out_items max_count require q = Returned False out' q' s' \<longrightarrow>
      require \<and> isEmpty q' \<and> closed q' \<and> out' = out_items) \<and>
   get_batch sched out_items max_count require q \<noteq> Undefined_behaviour"
proof -
  have 1: "isEmpty q \<and> closed q \<longrightarrow>
      get_batch sched out_items max_count True q = Returned False out_items q sched"
    using assms by (simp add: get_batch_def)
  have 2: "\<not> isEmpty q \<longrightarrow>
      get_batch sched out_items max_count require q =
        Returned True (out_items @ take max_count (items q))
          (q\<lparr>items := drop max_count (items q)\<rparr>) sched"
    using assms by (simp add: get_batch_def drain_take)
  have 3: "isEmpty q \<and> \<not> closed q \<longrightarrow>
      get_batch [] out_items max_count True q = Blocked_forever \<and>
      get_batch (w # sched) out_items max_count True q =
        get_batch sched out_items max_count True (foldl other_step q w)"
    using assms by (simp add: get_batch_def)
  have 4: "isEmpty q \<longrightarrow>
      get_batch sched out_items max_count False q = Returned True out_items q sched"
    using assms by (simp add: get_batch_def drain_take isEmpty_def items_same)
  from 1 2 3 4 get_batch_false [OF assms, of sched out_items require q]
    get_batch_defined [of sched out_items max_count require q]
  show ?thesis by blast
qed

theorem get_batch_contract_witness:
  "(0::nat) < 2 \<and>
   isEmpty closed_empty \<and> closed closed_empty \<and>
   get_batch [] [1] 2 True closed_empty = Returned False [1] closed_empty [] \<and>
   \<not> isEmpty open_three \<and>
   get_batch [] [1] 2 True open_three = Returned True [1, 5, 6] (open_three\<lparr>items := [7]\<rparr>) [] \<and>
   isEmpty (new_queue :: nat BlockingQueue) \<and> \<not> closed (new_queue :: nat BlockingQueue) \<and>
   get_batch [] [1] 2 True (new_queue :: nat BlockingQueue) = Blocked_forever \<and>
   get_batch [[OtherPut 7]] [1] 2 True (new_queue :: nat BlockingQueue)
     = get_batch [] [1] 2 True (foldl other_step new_queue [OtherPut 7]) \<and>
   get_batch [] [1] 2 False (new_queue :: nat BlockingQueue) = Returned True [1] new_queue []"
proof -
  have h: "(0::nat) < 2" by simp
  have 1: "isEmpty closed_empty \<and> closed closed_empty"
    by (simp add: isEmpty_def closed_empty_def)
  have 2: "\<not> isEmpty open_three"
    by (simp add: isEmpty_def open_three_def)
  have 3: "isEmpty (new_queue :: nat BlockingQueue) \<and> \<not> closed (new_queue :: nat BlockingQueue)"
    by (simp add: isEmpty_def new_queue_def)
  from get_batch_contract [OF h, of closed_empty "[]" "[1]"] 1
  have r1: "get_batch [] [1] 2 True closed_empty = Returned False [1] closed_empty []"
    by blast
  from get_batch_contract [OF h, of open_three "[]" "[1]" True] 2
  have "get_batch [] [1] 2 True open_three
          = Returned True ([1] @ take 2 (items open_three))
              (open_three\<lparr>items := drop 2 (items open_three)\<rparr>) []"
    by blast
  then have r2: "get_batch [] [1] 2 True open_three
      = Returned True [1, 5, 6] (open_three\<lparr>items := [7]\<rparr>) []"
    by (simp add: open_three_def)
  from get_batch_contract [OF h, of "new_queue :: nat BlockingQueue" "[]" "[1]" _ "[OtherPut 7]"] 3
  have r3: "get_batch [] [1] 2 True (new_queue :: nat BlockingQueue) = Blocked_forever \<and>
   get_batch [[OtherPut 7]] [1] 2 True (new_queue :: nat BlockingQueue)
     = get_batch [] [1] 2 True (foldl other_step new_queue [OtherPut 7]) \<and>
   get_batch [] [1] 2 False (new_queue :: nat BlockingQueue) = Returned True [1] new_queue []"
    by blast
  from h 1 2 3 r1 r2 r3 show ?thesis by blast
qed

lemma run_Cons:
  "run (c # cs) q =
     (fst (exec c q) # fst (run cs (snd (exec c q))), snd (run cs (snd (exec c q))))"
  by (simp split: prod.splits)

lemma run_closed:
  "closed q \<Longrightarrow> fst (run cs q) = after_close cs (items q) \<and> closed (snd (run cs q))"
proof (induction cs arbitrary: q)
  case Nil
  then show ?case by simp
next
  case (Cons c cs)
  show ?case
  proof (cases c)
    case (CallPut x)
    with Cons.IH [OF Cons.prems] Cons.prems show ?thesis
      by (simp add: put_def run_Cons del: run.simps)
  next
    case (CallGet item)
    show ?thesis
    proof (cases "items q")
      case Nil
      with Cons.IH [OF Cons.prems] Cons.prems CallGet show ?thesis
        by (simp add: get_def isEmpty_def run_Cons del: run.simps)
    next
      case (Cons x xs)
      with Cons.IH [of "q\<lparr>items := xs\<rparr>"] Cons.prems CallGet show ?thesis
        by (simp add: get_def isEmpty_def run_Cons del: run.simps)
    qed
  next
    case (CallGetBatch out_items m req)
    show ?thesis
    proof (cases "m = 0")
      case True
      with Cons.IH [OF Cons.prems] Cons.prems CallGetBatch show ?thesis
        by (simp add: get_batch_def run_Cons del: run.simps)
    next
      case False
      with Cons.IH [of "q\<lparr>items := drop m (items q)\<rparr>"] Cons.IH [OF Cons.prems]
        Cons.prems CallGetBatch show ?thesis
        by (auto simp: get_batch_def drain_take isEmpty_def run_Cons simp del: run.simps)
    qed
  next
    case CallClose
    with Cons.IH [of "close q"] Cons.prems show ?thesis
      by (simp add: close_def run_Cons del: run.simps)
  qed
qed

text \<open>
  C4, as the claim states it, fails: on a queue that is closed and empty the batch \<^verbatim>\<open>get\<close>
  returns true, not false, when it is not asked for at least one item, and also when
  \<^verbatim>\<open>max_count\<close> is zero.
\<close>

theorem batch_get_true_after_close:
  "closed (close (new_queue :: nat BlockingQueue)) \<and>
   isEmpty (close (new_queue :: nat BlockingQueue)) \<and>
   fst (run [CallGetBatch [] 1 False] (close (new_queue :: nat BlockingQueue)))
     = [BatchReturned True []] \<and>
   fst (run [CallGetBatch [] 0 True] (close (new_queue :: nat BlockingQueue)))
     = [BatchReturned True []]"
  by (simp add: close_def new_queue_def isEmpty_def get_batch_def drain_take)

text \<open>
  C4, amended: after \<^verbatim>\<open>close()\<close>, whatever calls follow, in whatever order: every \<^verbatim>\<open>put\<close>
  throws \<open>QueueClosed\<close>; no \<^verbatim>\<open>get\<close> waits; the \<^verbatim>\<open>get\<close> calls hand out the items that were
  in the queue at the close, oldest first. Once these are gone the single-item \<^verbatim>\<open>get\<close>
  returns false, and the batch \<^verbatim>\<open>get\<close> returns false when it is asked for at least one
  of a positive number of items and true, with nothing added, otherwise. (\<open>after_close\<close>
  tells this on the list of the items alone.) The queue stays closed.
\<close>

theorem close_then_calls:
  "fst (run cs (close q)) = after_close cs (items q) \<and> closed (snd (run cs (close q)))"
  using run_closed [of "close q" cs] by (simp add: close_def)

theorem close_then_calls_witness:
  "fst (run [CallPut 9, CallGet 0, CallGetBatch [] 1 False, CallGet 0, CallGetBatch [] 1 False,
             CallGetBatch [] 1 True, CallPut 9, CallGet 0]
          (close open_three))
     = [PutThrew QueueClosed, GetReturned True 5, BatchReturned True [6], GetReturned True 7,
        BatchReturned True [], BatchReturned False [], PutThrew QueueClosed,
        GetReturned False 0]"
proof -
  have "after_close [CallPut 9, CallGet 0, CallGetBatch [] 1 False, CallGet 0,
            CallGetBatch [] 1 False, CallGetBatch [] 1 True, CallPut 9, CallGet 0]
          (items open_three)
     = [PutThrew QueueClosed, GetReturned True 5, BatchReturned True [6], GetReturned True 7,
        BatchReturned True [], BatchReturned False [], PutThrew QueueClosed,
        GetReturned False 0]"
    by (simp add: open_three_def)
  with close_then_calls [of "[CallPut 9, CallGet 0, CallGetBatch [] 1 False, CallGet 0,
            CallGetBatch [] 1 False, CallGetBatch [] 1 True, CallPut 9, CallGet 0]"
      open_three]
  show ?thesis by (simp del: run.simps after_close.simps)
qed

section \<open>Properties of the translation\<close>

text \<open>
  C1, as the claim states it, fails: a \<^verbatim>\<open>ppconsul::BadStatus\<close> thrown inside the callable
  leaves \<^verbatim>\<open>liboffkv_try\<close> as the same \<^verbatim>\<open>ppconsul::BadStatus\<close>, a backend class and none of
  the classes of \<^verbatim>\<open>error.hpp\<close>.
\<close>

theorem liboffkv_try_backend_propagates:
  "liboffkv_try consul_call_failing = Throws (BadStatus 500 ''Internal Server Error'') \<and>
   backend_specific (BadStatus 500 ''Internal Server Error'') \<and>
   \<not> canonical (BadStatus 500 ''Internal Server Error'')"
  by (simp add: liboffkv_try_def consul_call_failing_def)

text \<open>
  C1, amended: a value returned by the callable is returned. A \<^verbatim>\<open>zk::error\<close> with code
  \<open>no_entry\<close> is thrown on as \<open>NoEntry\<close>, one with code \<open>entry_exists\<close> as \<open>EntryExists\<close>.
  A \<^verbatim>\<open>zk::error\<close> with code \<open>version_mismatch\<close>, a \<^verbatim>\<open>ppconsul::BadStatus\<close> and a
  \<^verbatim>\<open>ppconsul::kv::UpdateError\<close> are thrown on as they are. An exception of any other
  class passes unchanged.
\<close>

theorem liboffkv_try_translation:
  "(f () = Inr v \<longrightarrow> liboffkv_try f = Returns v) \<and>
   (f () = Inl (zk_error no_entry) \<longrightarrow> liboffkv_try f = Throws NoEntry) \<and>
   (f () = Inl (zk_error entry_exists) \<longrightarrow> liboffkv_try f = Throws EntryExists) \<and>
   (f () = Inl (zk_error version_mismatch) \<longrightarrow>
      liboffkv_try f = Throws (zk_error version_mismatch)) \<and>
   (f () = Inl (BadStatus status message) \<longrightarrow>
      liboffkv_try f = Throws (BadStatus status message)) \<and>
   (f () = Inl (UpdateError reason) \<longrightarrow> liboffkv_try f = Throws (UpdateError reason)) \<and>
   (f () = Inl e \<and> \<not> backend_specific e \<longrightarrow> liboffkv_try f = Throws e)"
  by (cases e) (simp_all add: liboffkv_try_def)

theorem liboffkv_try_translation_witness:
  "liboffkv_try (\<lambda>u. Inr (7::nat)) = Returns 7 \<and>
   liboffkv_try (\<lambda>u. Inl (zk_error no_entry) :: exn + nat) = Throws NoEntry \<and>
   liboffkv_try (\<lambda>u. Inl (zk_error entry_exists) :: exn + nat) = Throws EntryExists \<and>
   liboffkv_try (\<lambda>u. Inl (zk_error version_mismatch) :: exn + nat)
     = Throws (zk_error version_mismatch) \<and>
   liboffkv_try (\<lambda>u. Inl (BadStatus 404 ''Not Found'') :: exn + nat)
     = Throws (BadStatus 404 ''Not Found'') \<and>
   liboffkv_try (\<lambda>u. Inl (UpdateError ''update failed'') :: exn + nat)
     = Throws (UpdateError ''update failed'') \<and>
   \<not> backend_specific InvalidKey \<and>
   liboffkv_try (\<lambda>u. Inl InvalidKey :: exn + nat) = Throws InvalidKey"
  using liboffkv_try_translation [where f = "\<lambda>u. Inr (7::nat)" and v = 7]
    liboffkv_try_translation [where f = "\<lambda>u. Inl (zk_error no_entry) :: exn + nat"]
    liboffkv_try_translation [where f = "\<lambda>u. Inl (zk_error entry_exists) :: exn + nat"]
    liboffkv_try_translation [where f = "\<lambda>u. Inl (zk_error version_mismatch) :: exn + nat"]
    liboffkv_try_translation [where f = "\<lambda>u. Inl (BadStatus 404 ''Not Found'') :: exn + nat"
      and status = 404 and message = "''Not Found''"]
    liboffkv_try_translation [where f = "\<lambda>u. Inl (UpdateError ''update failed'') :: exn + nat"
      and reason = "''update failed''"]
    liboffkv_try_translation [where f = "\<lambda>u. Inl InvalidKey :: exn + nat" and e = InvalidKey]
  by simp

section \<open>Properties of the scheduler\<close>

text \<open>
  C2 fails on the code. With two items in the buffer, both ready, one pass of
  \<^verbatim>\<open>process_objects_\<close> probes the first with the timeout of 20 ms, runs its action and
  erases it; the second item moves to the place of the first, the iterator steps over
  it, and the pass ends: the second item is never probed and stays in the buffer.
\<close>

theorem process_objects_skips:
  "process_objects (machine 10 20) [recording_item True 1, recording_item True 2] []
     = ([recording_item True 2], [Probed 1 20, Acted 1])"
  by (simp add: process_objects_def machine_def recording_item_def erase_def)

lemma state_at_update:
  "state_at (h[p := x]) a = (if a = p \<and> p < length h then x else state_at h a)"
  by (simp add: state_at_def)

lemma action_throws:
  assumes "state_at h promise = Pending" and "func (state_at h future) = Inl e"
  shows "action future promise func h = h[promise := Exception e]"
  using assms by (simp add: action_def set_exception_def set_state_def)

text \<open>
  C3: \<^verbatim>\<open>then(future, func)\<close> on an open queue returns a new future that is not set, and
  puts the pair of probe and action at the back of the queue. When the action runs on a
  heap where the new future is still not set (only this action sets it) and \<open>func\<close>
  throws \<open>e\<close>, the new future afterwards holds the exception \<open>e\<close> itself, and no other
  promise or future changes. A worker's pass over a buffer that holds the pair, with the
  input future ready, runs that action and removes the pair.
\<close>

theorem then_fn_throws:
  assumes "tm_then future func tm h = (Inr new_future, tm', h')"
    and "state_at h2 new_future = Pending"
    and "func (state_at h2 future) = Inl e"
  shows "state_at h' new_future = Pending \<and>
         items (queue tm') = items (queue tm) @ [(is_ready future, action future new_future func)] \<and>
         state_at (action future new_future func h2) new_future = Exception e \<and>
         (\<forall>a. a \<noteq> new_future \<longrightarrow> state_at (action future new_future func h2) a = state_at h2 a) \<and>
         (fst (is_ready future (sint (wait_for_object_ms tm')) h2) \<longrightarrow>
            process_objects tm' [(is_ready future, action future new_future func)] h2
              = ([], action future new_future func h2))"
proof -
  from assms(1) have nf: "new_future = length h" and h': "h' = h @ [Pending]"
    and q: "\<not> closed (queue tm)"
    and tm': "tm' = tm\<lparr>queue := snd (put (is_ready future, action future (length h) func) (queue tm))\<rparr>"
    by (auto simp: tm_then_def Let_def put_def split: if_splits)
  have 1: "state_at h' new_future = Pending"
    by (simp add: nf h' state_at_def)
  have 2: "items (queue tm') = items (queue tm) @ [(is_ready future, action future new_future func)]"
    using q by (simp add: tm' nf put_def)
  have a: "action future new_future func h2 = h2[new_future := Exception e]"
    using assms(2,3) by (rule action_throws)
  have lt: "new_future < length h2"
    using assms(2) by (auto simp: state_at_def split: if_splits)
  have 3: "state_at (action future new_future func h2) new_future = Exception e"
    using lt by (simp add: a state_at_update)
  have 4: "\<forall>a. a \<noteq> new_future \<longrightarrow> state_at (action future new_future func h2) a = state_at h2 a"
    by (simp add: a state_at_update)
  have 5: "fst (is_ready future (sint (wait_for_object_ms tm')) h2) \<longrightarrow>
            process_objects tm' [(is_ready future, action future new_future func)] h2
              = ([], action future new_future func h2)"
    by (auto simp: process_objects_def erase_def is_ready_def split: shared_state.splits)
  from 1 2 3 4 5 show ?thesis by blast
qed

theorem then_fn_throws_witness:
  "tm_then 0 (always_throws NoEntry) (machine 10 20) [Value (1::nat)]
     = (Inr 1, after_then, [Value 1, Pending]) \<and>
   state_at [Value (1::nat), Pending] 1 = Pending \<and>
   always_throws NoEntry (state_at [Value (1::nat), Pending] 0) = (Inl NoEntry :: exn + nat) \<and>
   state_at (action 0 1 (always_throws NoEntry) [Value (1::nat), Pending]) 1
     = Exception NoEntry \<and>
   state_at (action 0 1 (always_throws NoEntry) [Value (1::nat), Pending]) 0 = Value 1 \<and>
   fst (is_ready 0 (sint (wait_for_object_ms after_then)) [Value (1::nat), Pending]) \<and>
   process_objects after_then [(is_ready 0, action 0 1 (always_throws NoEntry))]
       [Value (1::nat), Pending]
     = ([], action 0 1 (always_throws NoEntry) [Value (1::nat), Pending])"
proof -
  have a: "tm_then 0 (always_throws NoEntry) (machine 10 20) [Value (1::nat)]
     = (Inr 1, after_then, [Value 1, Pending])"
    by (simp add: tm_then_def machine_def new_queue_def put_def after_then_def)
  have b: "state_at [Value (1::nat), Pending] 1 = Pending"
    by (simp add: state_at_def)
  have c: "always_throws NoEntry (state_at [Value (1::nat), Pending] 0)
             = (Inl NoEntry :: exn + nat)"
    by (simp add: always_throws_def)
  have d: "fst (is_ready 0 (sint (wait_for_object_ms after_then)) [Value (1::nat), Pending])"
    by (simp add: is_ready_def state_at_def)
  have e: "state_at [Value (1::nat), Pending] 0 = Value 1"
    by (simp add: state_at_def)
  from then_fn_throws [OF a b c] a b c d e show ?thesis by simp
qed

section \<open>Properties of the threads\<close>

lemma get_batch_now:
  assumes "get_batch [] out m req q = Returned b out' q' s'"
  shows "\<exists>k. out' = out @ take k (items q) \<and> q' = q\<lparr>items := drop k (items q)\<rparr> \<and>
             (\<not> b \<longrightarrow> closed q \<and> isEmpty q)"
proof (cases "m = 0")
  case True
  with assms have "out' = out @ take 0 (items q) \<and> q' = q\<lparr>items := drop 0 (items q)\<rparr> \<and> b"
    by (simp add: get_batch_def items_same)
  then show ?thesis by blast
next
  case False
  show ?thesis
  proof (cases "req \<and> isEmpty q")
    case True
    with assms False have "out' = out @ take 0 (items q) \<and> q' = q\<lparr>items := drop 0 (items q)\<rparr>
        \<and> closed q \<and> isEmpty q"
      by (auto simp: get_batch_def wait_nil items_same simp del: wait_while_empty.simps split: if_splits)
    then show ?thesis by blast
  next
    case False
    with assms \<open>m \<noteq> 0\<close> have "out' = out @ take m (items q) \<and> q' = q\<lparr>items := drop m (items q)\<rparr> \<and> b"
      by (auto simp: get_batch_def wait_nil drain_take simp del: wait_while_empty.simps split: if_splits)
    then show ?thesis by blast
  qed
qed

lemma count_update_nat:
  "i < length ws \<Longrightarrow>
     length (filter P (ws[i := w])) + (if P (ws ! i) then 1 else 0) =
       length (filter P ws) + (if P w then 1 else 0)"
proof (induction ws arbitrary: i)
  case Nil
  then show ?case by simp
next
  case (Cons a ws)
  show ?case
  proof (cases i)
    case 0
    then show ?thesis by simp
  next
    case (Suc j)
    with Cons.prems have "j < length ws" by simp
    from Cons.IH [OF this] Suc show ?thesis by simp
  qed
qed

lemma count_update:
  assumes "i < length ws"
  shows "int (length (filter P (ws[i := w]))) =
       int (length (filter P ws)) - (if P (ws ! i) then 1 else 0) + (if P w then 1 else 0)"
  using count_update_nat [OF assms, of P w] by (simp split: if_splits)

lemma left_update:
  assumes "\<exists>x \<in> set (ws[i := w]). left x" and "\<not> left w"
  shows "\<exists>x \<in> set ws. left x"
proof -
  from assms(1) obtain x where "x \<in> set (ws[i := w])" and l: "left x" by blast
  then have "x \<in> insert w (set ws)" using set_update_subset_insert by fast
  with l assms(2) show ?thesis by auto
qed

lemma set_worker_fields:
  "workers (set_worker i w s) = (workers s)[i := w]"
  "time_machine (set_worker i w s) = time_machine s"
  "dtor (set_worker i w s) = dtor s"
  "enqueued (set_worker i w s) = enqueued s"
  "fetched (set_worker i w s) = fetched s"
  by (simp_all add: set_worker_def)

lemma set_queue_fields:
  "workers (set_queue q s) = workers s"
  "queue (time_machine (set_queue q s)) = q"
  "state (time_machine (set_queue q s)) = state (time_machine s)"
  "dtor (set_queue q s) = dtor s"
  "enqueued (set_queue q s) = enqueued s"
  "fetched (set_queue q s) = fetched s"
  by (simp_all add: set_queue_def)

lemma add_state_fields:
  "workers (add_state d s) = workers s"
  "queue (time_machine (add_state d s)) = queue (time_machine s)"
  "state (time_machine (add_state d s)) = state (time_machine s) + d"
  "dtor (add_state d s) = dtor s"
  "enqueued (add_state d s) = enqueued s"
  "fetched (add_state d s) = fetched s"
  by (simp_all add: add_state_def)

lemmas updates = set_worker_fields set_queue_fields add_state_fields

lemma invI:
  assumes "dtor s \<noteq> Alive \<Longrightarrow> closed (queue (time_machine s))"
    and "saw_empty (dtor s) \<Longrightarrow> isEmpty (queue (time_machine s))"
    and "\<exists>w \<in> set (workers s). left w \<Longrightarrow>
           closed (queue (time_machine s)) \<and> isEmpty (queue (time_machine s))"
    and "enqueued s = fetched s @ items (queue (time_machine s))"
    and "state (time_machine s) = int (length (filter active (workers s)))"
  shows "invariant s"
  using assms unfolding invariant_def by blast

lemma invD:
  assumes "invariant s"
  shows "dtor s \<noteq> Alive \<Longrightarrow> closed (queue (time_machine s))"
    and "saw_empty (dtor s) \<Longrightarrow> isEmpty (queue (time_machine s))"
    and "\<exists>w \<in> set (workers s). left w \<Longrightarrow>
           closed (queue (time_machine s)) \<and> isEmpty (queue (time_machine s))"
    and "enqueued s = fetched s @ items (queue (time_machine s))"
    and "state (time_machine s) = int (length (filter active (workers s)))"
  using assms unfolding invariant_def by blast+

lemma inv_init: "invariant (constructed n objects wait_ms w)"
  by (simp add: invariant_def constructed_def machine_def new_queue_def isEmpty_def)

lemma inv_flag: "invariant (s\<lparr>use_after_destruction := b\<rparr>) = invariant s"
  by (simp add: invariant_def)

text \<open>A worker that changes neither the queue nor the bookkeeping of the items.\<close>

lemma inv_worker_local:
  fixes s :: "'s system"
  assumes i: "invariant s" and lt: "i < length (workers s)"
    and w: "workers s' = (workers s)[i := x]"
    and nl: "\<not> left x"
    and c: "int (length (filter active ((workers s)[i := x])))
              - int (length (filter active (workers s))) = d"
    and st: "state (time_machine s') = state (time_machine s) + d"
    and q: "queue (time_machine s') = queue (time_machine s)"
    and other: "dtor s' = dtor s" "enqueued s' = enqueued s" "fetched s' = fetched s"
  shows "invariant s'"
proof (rule invI)
  assume "dtor s' \<noteq> Alive"
  with invD(1) [OF i] show "closed (queue (time_machine s'))" by (simp add: q other)
next
  assume "saw_empty (dtor s')"
  with invD(2) [OF i] show "isEmpty (queue (time_machine s'))" by (simp add: q other)
next
  assume "\<exists>w \<in> set (workers s'). left w"
  then have "\<exists>w \<in> set (workers s). left w"
    unfolding w using nl by (rule left_update)
  with invD(3) [OF i]
  show "closed (queue (time_machine s')) \<and> isEmpty (queue (time_machine s'))"
    by (simp add: q)
next
  from invD(4) [OF i] show "enqueued s' = fetched s' @ items (queue (time_machine s'))"
    by (simp add: q other)
next
  from invD(5) [OF i] c
  show "state (time_machine s') = int (length (filter active (workers s')))"
    by (simp add: st w)
qed

lemma inv_worker:
  fixes s :: "'s system"
  assumes "invariant s" and "i < length (workers s)"
    and "run_thread i (workers s ! i) s = Some s'"
  shows "invariant s'"
proof (cases "workers s ! i")
  case Spawned
  with assms(3) have s': "s' = set_worker i (Polling []) (add_state 1 s)" by simp
  show ?thesis
  proof (rule inv_worker_local [OF assms(1,2), where x = "Polling []" and d = 1])
    show "int (length (filter active ((workers s)[i := Polling []])))
            - int (length (filter active (workers s))) = 1"
      using Spawned by (simp add: count_update [OF assms(2)])
  qed (simp_all add: s' updates)
next
  case (Polling picked)
  with assms(3) obtain b picked' q' sched where
    g: "get_batch [] picked
          (unat (objects_per_thread (time_machine s) - of_nat (length picked)))
          (picked = []) (queue (time_machine s)) = Returned b picked' q' sched"
    and s': "s' = set_worker i (if b then Processing picked' else Leaving)
                 (set_queue q' (s\<lparr>fetched := fetched s @ drop (length picked) picked'\<rparr>))"
    by (auto split: returned.splits)
  from get_batch_now [OF g] obtain k where
    p: "picked' = picked @ take k (items (queue (time_machine s)))"
    and q: "q' = (queue (time_machine s))\<lparr>items := drop k (items (queue (time_machine s)))\<rparr>"
    and f: "\<not> b \<longrightarrow> closed (queue (time_machine s)) \<and> isEmpty (queue (time_machine s))"
    by blast
  let ?x = "if b then Processing picked' else Leaving :: 's worker"
  have ws: "workers s' = (workers s)[i := ?x]" by (simp add: s' updates)
  have qs: "queue (time_machine s') = q'" by (simp add: s' updates)
  have ds: "dtor s' = dtor s" by (simp add: s' updates)
  have cl: "closed q' = closed (queue (time_machine s))" by (simp add: q)
  have em: "isEmpty (queue (time_machine s)) \<Longrightarrow> isEmpty q'" by (simp add: q isEmpty_def)
  show ?thesis
  proof (rule invI)
    assume "dtor s' \<noteq> Alive"
    with invD(1) [OF assms(1)] show "closed (queue (time_machine s'))"
      by (simp add: qs cl ds)
  next
    assume "saw_empty (dtor s')"
    with invD(2) [OF assms(1)] em show "isEmpty (queue (time_machine s'))"
      by (simp add: qs ds)
  next
    assume l: "\<exists>w \<in> set (workers s'). left w"
    show "closed (queue (time_machine s')) \<and> isEmpty (queue (time_machine s'))"
    proof (cases b)
      case True
      with l have "\<exists>w \<in> set (workers s). left w"
        unfolding ws by (auto intro: left_update [where w = "Processing picked'"])
      with invD(3) [OF assms(1)] em show ?thesis by (simp add: qs cl)
    next
      case False
      with f em show ?thesis by (simp add: qs cl)
    qed
  next
    have "fetched s' = fetched s @ take k (items (queue (time_machine s)))"
      by (simp add: s' updates p)
    moreover have "enqueued s' = enqueued s" by (simp add: s' updates)
    moreover have "items q' = drop k (items (queue (time_machine s)))" by (simp add: q)
    ultimately show "enqueued s' = fetched s' @ items (queue (time_machine s'))"
      using invD(4) [OF assms(1)] by (simp add: qs)
  next
    have "state (time_machine s') = state (time_machine s)" by (simp add: s' updates)
    moreover have "int (length (filter active ((workers s)[i := ?x])))
        = int (length (filter active (workers s)))"
      using Polling by (simp add: count_update [OF assms(2)])
    ultimately show "state (time_machine s') = int (length (filter active (workers s')))"
      using invD(5) [OF assms(1)] by (simp add: ws)
  qed
next
  case (Processing picked)
  with assms(3) obtain picked' w' where
    s': "s' = set_worker i (Polling picked') (s\<lparr>world := w'\<rparr>)"
    by (auto split: prod.splits)
  show ?thesis
  proof (rule inv_worker_local [OF assms(1,2), where x = "Polling picked'" and d = 0])
    show "int (length (filter active ((workers s)[i := Polling picked'])))
            - int (length (filter active (workers s))) = 0"
      using Processing by (simp add: count_update [OF assms(2)])
  qed (simp_all add: s' updates)
next
  case Leaving
  with assms(3) have s': "s' = set_worker i Exited (add_state (- 1) s)" by simp
  from Leaving assms(2) have ex: "\<exists>x \<in> set (workers s). left x"
    by (metis left.simps(1) nth_mem)
  show ?thesis
  proof (rule invI)
    assume "dtor s' \<noteq> Alive"
    with invD(1) [OF assms(1)] show "closed (queue (time_machine s'))"
      by (simp add: s' updates)
  next
    assume "saw_empty (dtor s')"
    with invD(2) [OF assms(1)] show "isEmpty (queue (time_machine s'))"
      by (simp add: s' updates)
  next
    from invD(3) [OF assms(1) ex]
    show "closed (queue (time_machine s')) \<and> isEmpty (queue (time_machine s'))"
      by (simp add: s' updates)
  next
    from invD(4) [OF assms(1)]
    show "enqueued s' = fetched s' @ items (queue (time_machine s'))"
      by (simp add: s' updates)
  next
    from invD(5) [OF assms(1)] Leaving
    show "state (time_machine s') = int (length (filter active (workers s')))"
      by (simp add: s' updates count_update [OF assms(2)])
  qed
next
  case Exited
  with assms(3) show ?thesis by simp
qed

lemma put_cases:
  "put x q = (r, q') \<Longrightarrow>
     (closed q \<and> q' = q \<and> r = Inl QueueClosed) \<or>
     (\<not> closed q \<and> r = Inr () \<and> items q' = items q @ [x] \<and> closed q' = closed q)"
  by (auto simp: put_def split: if_splits)

lemma inv_produce:
  fixes s :: "'s system"
  assumes i: "invariant s" and mv: "move (Produce x) s = Some s'"
  shows "invariant s'"
proof -
  obtain r q' where p: "put x (queue (time_machine s)) = (r, q')" by (cases "put x (queue (time_machine s))")
  show ?thesis
  proof (cases "closed (queue (time_machine s))")
    case True
    with p have "q' = queue (time_machine s)" and "r = Inl QueueClosed" by (auto dest: put_cases)
    with mv p have s': "s' = set_queue (queue (time_machine s)) s" by simp
    show ?thesis
      by (rule invI) (insert invD [OF i], simp_all add: s' updates)
  next
    case False
    with p have r: "r = Inr ()" and it: "items q' = items (queue (time_machine s)) @ [x]"
      and cl: "\<not> closed q'"
      by (auto dest: put_cases)
    with mv p have s': "s' = set_queue q' (s\<lparr>enqueued := enqueued s @ [x]\<rparr>)" by simp
    from False invD(1) [OF i] have al: "dtor s = Alive" by blast
    from False invD(3) [OF i] have nl: "\<not> (\<exists>w \<in> set (workers s). left w)" by blast
    show ?thesis
    proof (rule invI)
      show "enqueued s' = fetched s' @ items (queue (time_machine s'))"
        using invD(4) [OF i] by (simp add: s' updates it)
      show "state (time_machine s') = int (length (filter active (workers s')))"
        using invD(5) [OF i] by (simp add: s' updates)
    qed (insert al nl, simp_all add: s' updates)
  qed
qed

lemma inv_move:
  fixes s :: "'s system"
  assumes "invariant s" and mv: "move m s = Some s'"
  shows "invariant s'"
proof (cases m)
  case (Worker i)
  with mv have "i < length (workers s)" and "run_thread i (workers s ! i) s = Some s'"
    by (auto split: if_splits)
  with assms(1) show ?thesis by (auto intro: inv_worker)
next
  case (Produce x)
  with mv assms(1) show ?thesis by (auto intro: inv_produce)
next
  case (Outside w)
  with mv have s': "s' = s\<lparr>world := w\<rparr>" by simp
  show ?thesis
    by (rule invI) (insert invD [OF assms(1)], simp_all add: s')
next
  case Close
  with mv have a: "dtor s = Alive"
    and s': "s' = set_queue (close (queue (time_machine s))) (s\<lparr>dtor := Wait_empty\<rparr>)"
    by (auto split: if_splits)
  show ?thesis
    by (rule invI)
       (insert invD [OF assms(1)] a, simp_all add: s' updates close_def isEmpty_def)
next
  case Test_empty
  with mv have a: "dtor s = Wait_empty"
    and s': "s' = (if isEmpty (queue (time_machine s)) then s\<lparr>dtor := Wait_workers\<rparr> else s)"
    by (auto split: if_splits)
  show ?thesis
    by (rule invI) (insert invD [OF assms(1)] a, simp_all add: s' split: if_splits)
next
  case Load_state
  with mv have a: "dtor s = Wait_workers"
    and s': "s' = (if state (time_machine s) = 0 then s\<lparr>dtor := Returning\<rparr> else s)"
    by (auto split: if_splits)
  show ?thesis
    by (rule invI) (insert invD [OF assms(1)] a, simp_all add: s' split: if_splits)
next
  case Return
  with mv have a: "dtor s = Returning" and s': "s' = s\<lparr>dtor := Destroyed\<rparr>"
    by (auto split: if_splits)
  show ?thesis
    by (rule invI) (insert invD [OF assms(1)] a, simp_all add: s')
qed

lemma inv_step:
  fixes s :: "'s system"
  assumes "invariant s" and "step m s = Some s'"
  shows "invariant s'"
proof -
  from assms(2) obtain s1 where mv: "move m s = Some s1"
    and s': "s' = s1 \<or> s' = s1\<lparr>use_after_destruction := True\<rparr>"
    by (auto simp: step_def split: option.splits if_splits)
  from inv_move [OF assms(1) mv] s' show ?thesis by (auto simp: inv_flag)
qed

lemma inv_steps: "invariant s \<Longrightarrow> steps ms s = Some s' \<Longrightarrow> invariant s'"
proof (induction ms arbitrary: s)
  case Nil
  then show ?case by simp
next
  case (Cons m ms)
  then show ?case by (auto split: option.splits dest: inv_step)
qed

text \<open>
  In every state that the scheduler and its threads reach from the constructor: once
  the destructor is past its first loop the queue is closed and empty; once some worker
  has left its loop the queue is closed and empty and every item that \<^verbatim>\<open>put\<close> accepted
  has been taken out by a worker's \<^verbatim>\<open>get\<close>; the counter is the number of workers between
  their \<^verbatim>\<open>fetch_add\<close> and their \<^verbatim>\<open>fetch_sub\<close>.
\<close>

lemma reached:
  assumes "steps ms (constructed number_of_threads objects wait_ms w) = Some s"
  shows "(saw_empty (dtor s) \<longrightarrow>
            closed (queue (time_machine s)) \<and> isEmpty (queue (time_machine s))) \<and>
         ((\<exists>x \<in> set (workers s). left x) \<longrightarrow>
            closed (queue (time_machine s)) \<and> isEmpty (queue (time_machine s)) \<and>
            fetched s = enqueued s) \<and>
         state (time_machine s) = int (length (filter active (workers s)))"
proof -
  from inv_steps [OF inv_init assms] have i: "invariant s" .
  have "saw_empty (dtor s) \<Longrightarrow> dtor s \<noteq> Alive" by (cases "dtor s") simp_all
  with invD [OF i] show ?thesis by (auto simp: isEmpty_def)
qed

lemma recording_item_calls:
  "fst (recording_item ready k) timeout s = (ready, s @ [Probed k timeout])"
  "snd (recording_item ready k) s = s @ [Acted k]"
  by (simp_all add: recording_item_def)

text \<open>A shutdown in which the worker has left before the destructor looks.\<close>

lemma shutdown_run: "steps shutdown_trace (constructed 1 10 20 []) = Some shutdown_state"
  by (simp add: shutdown_trace_def shutdown_state_def step_def constructed_def machine_def
        new_queue_def put_def close_def get_batch_def drain_take process_objects_def erase_def
        recording_item_calls set_worker_def set_queue_def add_state_def isEmpty_def)

text \<open>
  C8 fails on the code. The worker adds itself to the counter in its own first statement,
  not in \<^verbatim>\<open>run_thread_\<close>, so the destructor can load zero while a worker that the
  constructor started has not yet run. If that worker runs \<^verbatim>\<open>fetch_add\<close> between the
  \<^verbatim>\<open>load\<close> and the return, the destructor returns with the counter at one and the worker
  in its loop. If it runs after the return, it counts itself on the destroyed object.
\<close>

theorem destructor_misses_spawned_worker:
  "steps early_return_trace (constructed 1 10 20 [])
     = Some \<lparr>time_machine = worker_running, world = [], workers = [Polling []],
             dtor = Destroyed, use_after_destruction = False,
             enqueued = [], fetched = []\<rparr> \<and>
   steps late_start_trace (constructed 1 10 20 [])
     = Some \<lparr>time_machine = worker_running, world = [], workers = [Polling []],
             dtor = Destroyed, use_after_destruction = True,
             enqueued = [], fetched = []\<rparr> \<and>
   state worker_running = 1"
  by (simp add: early_return_trace_def late_start_trace_def worker_running_def step_def
        constructed_def machine_def new_queue_def close_def set_worker_def set_queue_def
        add_state_def isEmpty_def)

end
